theory Spec2Isabelle
  imports Main
begin

section \<open>Strings, whitespace and the string methods the notebook calls\<close>

text \<open>
  The corpus pipeline of \<^verbatim>\<open>data_processing.ipynb\<close> works on Python \<^verbatim>\<open>str\<close> values,
  which are sequences of Unicode code points: the cleaner drops the code points
  above 127, and the symbol set of \<^verbatim>\<open>sent_cleaning\<close> holds code points such as
  U+20AC.  A string is therefore a list of code points, each a natural number;
  \<open>length\<close> is Python's \<^verbatim>\<open>len\<close>.
\<close>

type_synonym pychar = nat
type_synonym pystr = "pychar list"

text \<open>ASCII literals are written through \<open>str\<close>.\<close>

definition str :: "string \<Rightarrow> pystr" where
  "str s = map of_char s"

text \<open>
  The exceptions that the modelled cells can raise.  An uncaught exception stops
  the run: nothing in the notebook catches one.
\<close>

datatype error =
    UnicodeDecodeError | JSONDecodeError | TypeError | AttributeError | IndexError | LookupError

definition bind_err :: "error + 'a \<Rightarrow> ('a \<Rightarrow> error + 'b) \<Rightarrow> error + 'b" where
  "bind_err m f = (case m of Inl e \<Rightarrow> Inl e | Inr x \<Rightarrow> f x)"

text \<open>
  A list comprehension (or a column-wise \<^verbatim>\<open>apply\<close>) whose body may raise: the
  elements are evaluated in order and the first exception ends the evaluation.
\<close>

fun map_err :: "('a \<Rightarrow> error + 'b) \<Rightarrow> 'a list \<Rightarrow> error + 'b list" where
  "map_err f [] = Inr []"
| "map_err f (x # xs) =
     bind_err (f x) (\<lambda>y. bind_err (map_err f xs) (\<lambda>ys. Inr (y # ys)))"

text \<open>
  \<^verbatim>\<open>xs[i]\<close> for a non-negative constant index: \<^verbatim>\<open>IndexError\<close> when the index is
  out of range.
\<close>

definition subscript :: "'a list \<Rightarrow> nat \<Rightarrow> error + 'a" where
  "subscript xs i = (if i < length xs then Inr (xs ! i) else Inl IndexError)"

text \<open>
  The code points that Python 3 treats as whitespace, both in \<^verbatim>\<open>str.split()\<close>
  and in the regular expression class \<^verbatim>\<open>\s\<close> of a \<^verbatim>\<open>str\<close> pattern: tab to carriage
  return, the separators U+001C to U+001F, space, U+0085, U+00A0, U+1680,
  U+2000 to U+200A, U+2028, U+2029, U+202F, U+205F and U+3000.
\<close>

definition isspace :: "pychar \<Rightarrow> bool" where
  "isspace c = (c \<in> set [9, 10, 11, 12, 13, 28, 29, 30, 31, 32, 133, 160, 5760,
      8192, 8193, 8194, 8195, 8196, 8197, 8198, 8199, 8200, 8201, 8202,
      8232, 8233, 8239, 8287, 12288])"

text \<open>
  \<^verbatim>\<open>s.split()\<close>: leading whitespace is skipped, a token is a maximal run of
  characters that are not whitespace, and no empty token is produced.
\<close>

function split :: "pystr \<Rightarrow> pystr list" where
  "split [] = []"
| "split (c # cs) =
     (if isspace c then split cs
      else takeWhile (\<lambda>x. \<not> isspace x) (c # cs) # split (dropWhile (\<lambda>x. \<not> isspace x) cs))"
  by pat_completeness auto
termination
proof (relation "measure length")
  show "wf (measure length)" by simp
next
  fix c :: pychar and cs :: pystr
  show "(cs, c # cs) \<in> measure length" by simp
next
  fix c :: pychar and cs :: pystr
  have "length (dropWhile (\<lambda>x. \<not> isspace x) cs) \<le> length cs"
    by (rule length_dropWhile_le)
  then show "(dropWhile (\<lambda>x. \<not> isspace x) cs, c # cs) \<in> measure length" by simp
qed

text \<open>
  \<^verbatim>\<open>s.split(maxsplit=1)\<close>: the first token, and then, when anything but
  whitespace follows it, the rest of the string from its first character that is
  not whitespace to its end (trailing whitespace included).  The result has zero,
  one or two elements.
\<close>

definition split_maxsplit1 :: "pystr \<Rightarrow> pystr list" where
  "split_maxsplit1 s =
     (let r = dropWhile isspace s in
      if r = [] then []
      else
        let rest = dropWhile isspace (dropWhile (\<lambda>x. \<not> isspace x) r) in
        if rest = [] then [takeWhile (\<lambda>x. \<not> isspace x) r]
        else [takeWhile (\<lambda>x. \<not> isspace x) r, rest])"

text \<open>\<^verbatim>\<open>sep.join(xs)\<close>.\<close>

fun join :: "pystr \<Rightarrow> pystr list \<Rightarrow> pystr" where
  "join sep [] = []"
| "join sep [x] = x"
| "join sep (x # y # ys) = x @ sep @ join sep (y # ys)"

text \<open>
  \<^verbatim>\<open>s.isdigit()\<close>: the string is not empty and each of its characters is a digit.
  Which code points are digits is a table of the interpreter's Unicode database
  (the ASCII digits and the digits of other scripts); the table is a parameter
  \<open>dg\<close> of everything that consults it.
\<close>

definition isdigit :: "(pychar \<Rightarrow> bool) \<Rightarrow> pystr \<Rightarrow> bool" where
  "isdigit dg s = (s \<noteq> [] \<and> list_all dg s)"

section \<open>Corpus cleaning (cell 2.1)\<close>

text \<open>
  \<^verbatim>\<open>df.Text.replace('\s+', ' ', regex=True)\<close> substitutes, in each text, a single
  space for every match of \<^verbatim>\<open>\s+\<close>.  Matches are found from left to right, do not
  overlap and are greedy, so each maximal run of whitespace is one match.
\<close>

function replace_whitespace :: "pystr \<Rightarrow> pystr" where
  "replace_whitespace [] = []"
| "replace_whitespace (c # cs) =
     (if isspace c then 32 # replace_whitespace (dropWhile isspace cs)
      else c # replace_whitespace cs)"
  by pat_completeness auto
termination
proof (relation "measure length")
  show "wf (measure length)" by simp
next
  fix c :: pychar and cs :: pystr
  have "length (dropWhile isspace cs) \<le> length cs"
    by (rule length_dropWhile_le)
  then show "(dropWhile isspace cs, c # cs) \<in> measure length" by simp
next
  fix c :: pychar and cs :: pystr
  show "(cs, c # cs) \<in> measure length" by simp
qed

text \<open>
  \<^verbatim>\<open>.str.encode('ascii', 'ignore').str.decode('utf-8')\<close>: encoding with the
  \<^verbatim>\<open>ignore\<close> handler keeps the code points below 128, one byte each, and leaves
  the others out; bytes below 128 decode, as UTF-8, to the code points of the same
  value.
\<close>

definition encode_ascii_ignore :: "pystr \<Rightarrow> pystr" where
  "encode_ascii_ignore s = filter (\<lambda>c. c < 128) s"

text \<open>Whether a string has two spaces in a row, for the comparison of the two orders.\<close>

fun double_space :: "pystr \<Rightarrow> bool" where
  "double_space [] = False"
| "double_space [c] = False"
| "double_space (c # d # cs) = ((c = 32 \<and> d = 32) \<or> double_space (d # cs))"

section \<open>Sentence cleaning (cell 2.3)\<close>

text \<open>
  \<^verbatim>\<open>spec_char\<close>, the set built from the string literal of \<^verbatim>\<open>sent_cleaning\<close>, in
  the order of the literal (two characters occur twice in it).
\<close>

definition spec_char :: "pychar set" where
  "spec_char = set [44, 63, 59, 46, 58, 47, 61, 43, 37, 96, 168, 42, 36, 8364, 45, 95,
      40, 41, 41, 176, 33, 167, 39, 34, 38, 64, 35, 126, 174, 8224, 186, 960, 8225, 172,
      8776, 169, 9674, 126, 8734, 181, 8230, 247, 8800, 60, 62, 94]"

text \<open>
  First comprehension, ``remove sequences of special characters'': a token is
  kept when \<^verbatim>\<open>len(x)<=2 or not all(c in spec_char for c in x)\<close>, and the tokens
  kept are joined by single spaces.
\<close>

definition remove_special_sequences :: "pystr \<Rightarrow> pystr" where
  "remove_special_sequences sent =
     join [32] (filter (\<lambda>x. length x \<le> 2 \<or> \<not> list_all (\<lambda>c. c \<in> spec_char) x) (split sent))"

text \<open>
  Second comprehension, ``if line begins with a number, remove the number''.
  The condition is evaluated first; \<^verbatim>\<open>and\<close> evaluates its right operand, with
  the subscript \<^verbatim>\<open>[0]\<close>, only when the left one holds, and the subscript \<^verbatim>\<open>[1]\<close>
  is evaluated only when the condition holds.
\<close>

definition remove_leading_number :: "(pychar \<Rightarrow> bool) \<Rightarrow> pystr \<Rightarrow> error + pystr" where
  "remove_leading_number dg sent =
     (if length (split_maxsplit1 sent) > 1 then
        bind_err (subscript (split_maxsplit1 sent) 0) (\<lambda>first.
          if isdigit dg first then subscript (split_maxsplit1 sent) 1 else Inr sent)
      else Inr sent)"

text \<open>
  Third comprehension, ``if line begins with a unique special char, remove that
  char''.  \<^verbatim>\<open>spec_char\<close> is a set of one-character strings, so a string of length
  one is a member when its character is.
\<close>

definition remove_leading_spec_char :: "pystr \<Rightarrow> error + pystr" where
  "remove_leading_spec_char sent =
     (if length (split_maxsplit1 sent) > 1 then
        bind_err (subscript (split_maxsplit1 sent) 0) (\<lambda>first.
          if length first = 1 then
            bind_err (subscript (split_maxsplit1 sent) 0) (\<lambda>first'.
              if list_all (\<lambda>c. c \<in> spec_char) first' then subscript (split_maxsplit1 sent) 1
              else Inr sent)
          else Inr sent)
      else Inr sent)"

text \<open>
  Fourth comprehension, ``keep only sentences with more than 2 words and less
  than 200 words''.
\<close>

definition keep_sentence :: "pystr \<Rightarrow> bool" where
  "keep_sentence sent = (length (split sent) > 2 \<and> length (split sent) < 200)"

definition sent_cleaning :: "(pychar \<Rightarrow> bool) \<Rightarrow> pystr list \<Rightarrow> error + pystr list" where
  "sent_cleaning dg list_sent =
     bind_err (Inr (map remove_special_sequences list_sent)) (\<lambda>l1.
     bind_err (map_err (remove_leading_number dg) l1) (\<lambda>l2.
     bind_err (map_err remove_leading_spec_char l2) (\<lambda>l3.
     Inr (filter keep_sentence l3))))"

text \<open>
  What the second and the third comprehension return for a sentence, written
  without the exceptions: the two lemmas \<open>remove_leading_number_returns\<close> and
  \<open>remove_leading_spec_char_returns\<close> below show that the subscripts never raise
  and that these are the values returned.
\<close>

definition number_stripped :: "(pychar \<Rightarrow> bool) \<Rightarrow> pystr \<Rightarrow> pystr" where
  "number_stripped dg sent =
     (if length (split_maxsplit1 sent) > 1 \<and> isdigit dg (split_maxsplit1 sent ! 0)
      then split_maxsplit1 sent ! 1 else sent)"

definition spec_char_stripped :: "pystr \<Rightarrow> pystr" where
  "spec_char_stripped sent =
     (if length (split_maxsplit1 sent) > 1 \<and> length (split_maxsplit1 sent ! 0) = 1 \<and>
         list_all (\<lambda>c. c \<in> spec_char) (split_maxsplit1 sent ! 0)
      then split_maxsplit1 sent ! 1 else sent)"

text \<open>\<^verbatim>\<open>sent_convert\<close> (cell 2.4): the sentences of a document, one per line.\<close>

definition sent_convert :: "pystr list \<Rightarrow> pystr" where
  "sent_convert list_sent = join [10] list_sent"

section \<open>Data extraction (cell 1)\<close>

text \<open>
  The values that \<^verbatim>\<open>json.load\<close> returns.  An object is given by its items (the keys
  are distinct), Python's \<^verbatim>\<open>None\<close> is \<open>JNull\<close>; the value of a float is never looked
  at and is left out.
\<close>

datatype json =
    JNull
  | JBool bool
  | JInt int
  | JFloat
  | JStr pystr
  | JArr "json list"
  | JObj "(pystr \<times> json) list"

text \<open>
  \<^verbatim>\<open>json.load(f)\<close> reads the whole file and parses it.  It either raises an
  exception (\<^verbatim>\<open>UnicodeDecodeError\<close> when the bytes of the file cannot be decoded,
  \<^verbatim>\<open>JSONDecodeError\<close> when the text is not JSON) or returns the value that the file
  denotes.  A file is given by this outcome.
\<close>

type_synonym json_file = "error + json"

text \<open>
  Iterating over a value, as \<^verbatim>\<open>enumerate(data)\<close> and \<^verbatim>\<open>' '.join(...)\<close> do: a list
  gives its elements, a dictionary its keys, a string its characters as strings
  of length one; any other value is not iterable (and has no \<^verbatim>\<open>len\<close>), which is a
  \<^verbatim>\<open>TypeError\<close>.
\<close>

fun iterate :: "json \<Rightarrow> error + json list" where
  "iterate (JArr vs) = Inr vs"
| "iterate (JObj kvs) = Inr (map (\<lambda>kv. JStr (fst kv)) kvs)"
| "iterate (JStr s) = Inr (map (\<lambda>c. JStr [c]) s)"
| "iterate JNull = Inl TypeError"
| "iterate (JBool b) = Inl TypeError"
| "iterate (JInt n) = Inl TypeError"
| "iterate JFloat = Inl TypeError"

text \<open>\<^verbatim>\<open>sep.join\<close> raises \<^verbatim>\<open>TypeError\<close> on an item that is not a string.\<close>

fun expect_str :: "json \<Rightarrow> error + pystr" where
  "expect_str (JStr s) = Inr s"
| "expect_str JNull = Inl TypeError"
| "expect_str (JBool b) = Inl TypeError"
| "expect_str (JInt n) = Inl TypeError"
| "expect_str JFloat = Inl TypeError"
| "expect_str (JArr vs) = Inl TypeError"
| "expect_str (JObj kvs) = Inl TypeError"

text \<open>
  \<^verbatim>\<open>doc.get(key)\<close>: the value stored under the key, \<^verbatim>\<open>None\<close> when the dictionary has
  no such key; only a dictionary has the method.
\<close>

fun dict_get :: "json \<Rightarrow> pystr \<Rightarrow> error + json" where
  "dict_get (JObj kvs) k = Inr (case map_of kvs k of None \<Rightarrow> JNull | Some v \<Rightarrow> v)"
| "dict_get JNull k = Inl AttributeError"
| "dict_get (JBool b) k = Inl AttributeError"
| "dict_get (JInt n) k = Inl AttributeError"
| "dict_get JFloat k = Inl AttributeError"
| "dict_get (JStr s) k = Inl AttributeError"
| "dict_get (JArr vs) k = Inl AttributeError"

text \<open>A row of the data frame: the flattened text and its number of characters.\<close>

record row =
  Text :: pystr
  Length :: nat

text \<open>
  The body of the extraction loop for one document: \<open>None\<close> when the guard
  \<^verbatim>\<open>doc.get('text') is not None\<close> fails and no row is appended.
\<close>

definition extract_row :: "json \<Rightarrow> error + row option" where
  "extract_row doc =
     bind_err (dict_get doc (str ''text'')) (\<lambda>t.
       if t \<noteq> JNull then
         bind_err (dict_get doc (str ''text'')) (\<lambda>t'.
         bind_err (iterate t') (\<lambda>items.
         bind_err (map_err expect_str items) (\<lambda>fragments.
           Inr (Some \<lparr>Text = join [32] fragments, Length = length (join [32] fragments)\<rparr>))))
       else Inr None)"

fun extract_loop :: "row list \<Rightarrow> json list \<Rightarrow> error + row list" where
  "extract_loop rows [] = Inr rows"
| "extract_loop rows (doc # data) =
     bind_err (extract_row doc) (\<lambda>r.
       extract_loop (case r of None \<Rightarrow> rows | Some row_dict \<Rightarrow> rows @ [row_dict]) data)"

definition data_extraction :: "json_file \<Rightarrow> error + row list" where
  "data_extraction file =
     bind_err file (\<lambda>data.
     bind_err (iterate data) (\<lambda>docs. extract_loop [] docs))"

section \<open>The cells in sequence (cells 1 to 2.6)\<close>

text \<open>
  A data frame built from an empty list of rows has no columns, and an attribute
  access such as \<^verbatim>\<open>df.Length\<close> or \<^verbatim>\<open>df.Text\<close> on it raises \<^verbatim>\<open>AttributeError\<close>.
\<close>

definition column_Length :: "row list \<Rightarrow> error + nat list" where
  "column_Length df = (if df = [] then Inl AttributeError else Inr (map Length df))"

definition column_Text :: "row list \<Rightarrow> error + pystr list" where
  "column_Text df = (if df = [] then Inl AttributeError else Inr (map Text df))"

text \<open>
  The cell after the extraction prints \<^verbatim>\<open>df.Length.max()\<close> and \<^verbatim>\<open>len(df.index)\<close>; the
  two numbers are its result here.  (The first cell of the notebook, which prints
  the keys of the thirteen shards, is a separate check and is not modelled.)
\<close>

definition print_statistics :: "row list \<Rightarrow> error + nat \<times> nat" where
  "print_statistics df =
     bind_err (column_Length df) (\<lambda>lengths. Inr (foldr max lengths 0, length df))"

text \<open>\<^verbatim>\<open>df = df.head()\<close>: the first five rows.\<close>

definition head :: "row list \<Rightarrow> row list" where
  "head df = take 5 df"

text \<open>
  Cell 2.1 on the \<^verbatim>\<open>Text\<close> column, whitespace first.  The \<^verbatim>\<open>Length\<close> column is not
  read again and is not carried further.
\<close>

definition corpus_cleaning :: "row list \<Rightarrow> error + pystr list" where
  "corpus_cleaning df =
     bind_err (column_Text df) (\<lambda>texts.
       Inr (map encode_ascii_ignore (map replace_whitespace texts)))"

text \<open>
  The sentence segmenter (\<^verbatim>\<open>sent_tokenize\<close> of the NLTK library) is not part of the
  repository: it is a parameter \<open>seg\<close>, a function from a text to its sentences that
  may raise.
\<close>

type_synonym segmenter = "pystr \<Rightarrow> error + pystr list"

text \<open>
  The cells from the extraction up to the cleaned sentences of each document: the
  statistics, \<^verbatim>\<open>df.head()\<close>, the corpus cleaning, and in cell 2.5 the segmentation of
  the whole column, then \<^verbatim>\<open>sent_cleaning\<close> of the whole column.
\<close>

definition filtered_documents ::
    "segmenter \<Rightarrow> (pychar \<Rightarrow> bool) \<Rightarrow> json_file \<Rightarrow> error + pystr list list" where
  "filtered_documents seg dg file =
     bind_err (data_extraction file) (\<lambda>df.
     bind_err (print_statistics df) (\<lambda>printed.
     bind_err (corpus_cleaning (head df)) (\<lambda>texts.
     bind_err (map_err seg texts) (\<lambda>segmented.
       map_err (sent_cleaning dg) segmented))))"

text \<open>Cell 2.6: \<^verbatim>\<open>"\n\n".join(df["Text"])\<close>.\<close>

definition concatenate_documents :: "pystr list \<Rightarrow> pystr" where
  "concatenate_documents texts = join [10, 10] texts"

definition output_text :: "segmenter \<Rightarrow> (pychar \<Rightarrow> bool) \<Rightarrow> json_file \<Rightarrow> error + pystr" where
  "output_text seg dg file =
     bind_err (filtered_documents seg dg file) (\<lambda>docs.
       Inr (concatenate_documents (map sent_convert docs)))"

text \<open>
  The run of the notebook on one shard, with the output file as state (\<open>None\<close>: no
  such file): the file is opened for writing and written in the last cell only,
  after every other cell has returned.
\<close>

definition run_notebook ::
    "segmenter \<Rightarrow> (pychar \<Rightarrow> bool) \<Rightarrow> json_file \<Rightarrow> pystr option \<Rightarrow> error option \<times> pystr option" where
  "run_notebook seg dg file output_file =
     (case output_text seg dg file of
        Inl e \<Rightarrow> (Some e, output_file)
      | Inr sentences \<Rightarrow> (None, Some sentences))"

section \<open>Reading the output file back\<close>

text \<open>
  The layout of the output file is stated on its lines.  \<open>split_on x\<close> cuts a list
  at every occurrence of \<open>x\<close>, as \<^verbatim>\<open>s.split('\n')\<close> does for a string and the newline
  character.
\<close>

fun split_on :: "'a \<Rightarrow> 'a list \<Rightarrow> 'a list list" where
  "split_on x [] = [[]]"
| "split_on x (y # ys) =
     (if y = x then [] # split_on x ys
      else (case split_on x ys of [] \<Rightarrow> [[y]] | g # gs \<Rightarrow> (y # g) # gs))"

definition file_lines :: "pystr \<Rightarrow> pystr list" where
  "file_lines out = split_on 10 out"

text \<open>
  The blank-line-separated segments of a file: the maximal runs of consecutive
  lines that are not blank.
\<close>

definition segments :: "pystr \<Rightarrow> pystr list list" where
  "segments out = filter (\<lambda>g. g \<noteq> []) (split_on [] (file_lines out))"

fun adjacent_blank :: "pystr list \<Rightarrow> bool" where
  "adjacent_blank [] = False"
| "adjacent_blank [l] = False"
| "adjacent_blank (l # m # ls) = ((l = [] \<and> m = []) \<or> adjacent_blank (m # ls))"

text \<open>
  The layout that the format asks of a file of \<open>n\<close> documents: \<open>n\<close> segments, no
  blank line at the start or at the end of the file, and never two blank lines in
  a row.
\<close>

definition blank_line_layout :: "pystr \<Rightarrow> nat \<Rightarrow> bool" where
  "blank_line_layout out n =
     (length (segments out) = n \<and> hd (file_lines out) \<noteq> [] \<and> last (file_lines out) \<noteq> [] \<and>
      \<not> adjacent_blank (file_lines out))"

text \<open>Whether a value is an array, for the statements about the top-level value.\<close>

definition is_array :: "json \<Rightarrow> bool" where
  "is_array v = (case v of JArr vs \<Rightarrow> True | _ \<Rightarrow> False)"

section \<open>Stand-ins and documents for concrete runs\<close>

text \<open>
  To run the cells on a concrete shard the two parameters need values.  The digit
  table \<open>ascii_digit\<close> holds the ASCII digits.  The segmenter \<open>one_sentence\<close> finds
  no sentence boundary: a text without any token has no sentence, any other text
  is one sentence.  The documents below have texts for which this is what a
  punctuation-based segmenter returns.
\<close>

definition ascii_digit :: "pychar \<Rightarrow> bool" where
  "ascii_digit c = (48 \<le> c \<and> c \<le> 57)"

definition one_sentence :: segmenter where
  "one_sentence text = Inr (if split text = [] then [] else [text])"

text \<open>
  Four documents of the form \<^verbatim>\<open>{'text': [...], 'uri': '...'}\<close>: two with one
  fragment of three words, one whose \<^verbatim>\<open>text\<close> is the empty list, one without the
  key \<^verbatim>\<open>text\<close>.
\<close>

definition doc_abc :: json where
  "doc_abc = JObj [(str ''text'', JArr [JStr (str ''a b c'')]), (str ''uri'', JStr (str ''u1''))]"

definition doc_def :: json where
  "doc_def = JObj [(str ''text'', JArr [JStr (str ''d e f'')]), (str ''uri'', JStr (str ''u2''))]"

definition doc_empty_text :: json where
  "doc_empty_text = JObj [(str ''text'', JArr []), (str ''uri'', JStr (str ''u3''))]"

definition doc_no_text :: json where
  "doc_no_text = JObj [(str ''uri'', JStr (str ''u4''))]"

section \<open>Properties of the cleaner\<close>

text \<open>Facts that evaluate the two character tables on the characters of the examples.\<close>

lemma isspace_space: "isspace 32"
  by (simp add: isspace_def)

lemma isspace_newline: "isspace 10"
  by (simp add: isspace_def)

lemma not_isspace_printable: "32 < c \<Longrightarrow> c < 133 \<Longrightarrow> \<not> isspace c"
  by (auto simp: isspace_def)

lemma letter_not_spec_char: "97 \<le> c \<Longrightarrow> c \<le> 122 \<Longrightarrow> c \<notin> spec_char"
  by (auto simp: spec_char_def)

lemma dot_question_spec_char: "46 \<in> spec_char" "63 \<in> spec_char"
  by (simp_all add: spec_char_def)

lemma replace_whitespace_no_leading_space:
  "ys = [] \<or> \<not> isspace (hd ys) \<Longrightarrow>
   dropWhile isspace (replace_whitespace ys) = replace_whitespace ys"
  by (cases ys) auto

lemma dropWhile_isspace_head:
  "dropWhile isspace cs = [] \<or> \<not> isspace (hd (dropWhile isspace cs))"
  using hd_dropWhile [of isspace cs] by blast

lemma replace_whitespace_twice:
  "replace_whitespace (replace_whitespace s) = replace_whitespace s"
proof (induction s rule: replace_whitespace.induct)
  case 1
  show ?case by simp
next
  case (2 c cs)
  show ?case
  proof (cases "isspace c")
    case True
    have sp: "isspace 32" by (simp add: isspace_def)
    have "dropWhile isspace (replace_whitespace (dropWhile isspace cs)) =
          replace_whitespace (dropWhile isspace cs)"
      by (rule replace_whitespace_no_leading_space) (rule dropWhile_isspace_head)
    with True sp 2(1) show ?thesis by simp
  next
    case False
    with 2(2) show ?thesis by simp
  qed
qed

text \<open>
  C7.  Replacing each run of whitespace by a single space is idempotent: a second
  application changes nothing.
\<close>

theorem whitespace_collapse_idempotent:
  "replace_whitespace (replace_whitespace s) = replace_whitespace s"
  by (rule replace_whitespace_twice)

theorem whitespace_collapse_idempotent_witness:
  "replace_whitespace (replace_whitespace [97, 9, 10, 32, 98, 160, 99]) =
   replace_whitespace [97, 9, 10, 32, 98, 160, 99] \<and>
   replace_whitespace [97, 9, 10, 32, 98, 160, 99] = [97, 32, 98, 32, 99]"
  using whitespace_collapse_idempotent [of "[97, 9, 10, 32, 98, 160, 99]"]
  by (simp add: isspace_def)

text \<open>
  C8.  Dropping the characters outside the 7-bit ASCII range is idempotent and
  never makes a string longer.
\<close>

theorem ascii_filter_idempotent_and_shrinking:
  "encode_ascii_ignore (encode_ascii_ignore s) = encode_ascii_ignore s \<and>
   length (encode_ascii_ignore s) \<le> length s"
  by (simp add: encode_ascii_ignore_def)

theorem ascii_filter_idempotent_and_shrinking_witness:
  "encode_ascii_ignore (encode_ascii_ignore [99, 97, 102, 233, 8364, 33]) =
     encode_ascii_ignore [99, 97, 102, 233, 8364, 33] \<and>
   length (encode_ascii_ignore [99, 97, 102, 233, 8364, 33]) \<le> length [99, 97, 102, 233, 8364, 33::nat] \<and>
   encode_ascii_ignore [99, 97, 102, 233, 8364, 33] = [99, 97, 102, 33]"
  using ascii_filter_idempotent_and_shrinking [of "[99, 97, 102, 233, 8364, 33]"]
  by (simp add: encode_ascii_ignore_def)

lemma replace_whitespace_dropWhile:
  "replace_whitespace (dropWhile isspace x) = dropWhile isspace (replace_whitespace x)"
proof (cases x)
  case Nil
  then show ?thesis by simp
next
  case (Cons c cs)
  show ?thesis
  proof (cases "isspace c")
    case True
    have "dropWhile isspace (replace_whitespace (dropWhile isspace cs)) =
          replace_whitespace (dropWhile isspace cs)"
      by (rule replace_whitespace_no_leading_space) (rule dropWhile_isspace_head)
    with True Cons show ?thesis by (simp add: isspace_space)
  next
    case False
    with Cons show ?thesis by simp
  qed
qed

lemma strip_encode_strip:
  "list_all (\<lambda>c. isspace c \<longrightarrow> c < 128) cs \<Longrightarrow>
   dropWhile isspace (encode_ascii_ignore (dropWhile isspace cs)) =
   dropWhile isspace (encode_ascii_ignore cs)"
  by (induction cs) (auto simp: encode_ascii_ignore_def)

lemma collapse_after_reference_order:
  "list_all (\<lambda>c. isspace c \<longrightarrow> c < 128) s \<Longrightarrow>
   replace_whitespace (encode_ascii_ignore (replace_whitespace s)) =
   replace_whitespace (encode_ascii_ignore s)"
proof (induction s rule: replace_whitespace.induct)
  case 1
  show ?case by simp
next
  case (2 c cs)
  from 2(3) have H: "list_all (\<lambda>c. isspace c \<longrightarrow> c < 128) cs" by simp
  show ?case
  proof (cases "isspace c")
    case True
    with 2(3) have c: "c < 128" by simp
    let ?d = "dropWhile isspace cs"
    from H have Hd: "list_all (\<lambda>c. isspace c \<longrightarrow> c < 128) ?d"
      by (auto simp: list_all_iff dest: set_dropWhileD)
    have IH: "replace_whitespace (encode_ascii_ignore (replace_whitespace ?d)) =
        replace_whitespace (encode_ascii_ignore ?d)"
      using True Hd by (rule 2(1))
    have "replace_whitespace (dropWhile isspace (encode_ascii_ignore (replace_whitespace ?d))) =
        dropWhile isspace (replace_whitespace (encode_ascii_ignore (replace_whitespace ?d)))"
      by (rule replace_whitespace_dropWhile)
    also have "\<dots> = dropWhile isspace (replace_whitespace (encode_ascii_ignore ?d))"
      by (simp only: IH)
    also have "\<dots> = replace_whitespace (dropWhile isspace (encode_ascii_ignore ?d))"
      by (rule replace_whitespace_dropWhile [symmetric])
    also have "\<dots> = replace_whitespace (dropWhile isspace (encode_ascii_ignore cs))"
      by (simp only: strip_encode_strip [OF H])
    finally have step: "replace_whitespace (dropWhile isspace (encode_ascii_ignore (replace_whitespace ?d))) =
        replace_whitespace (dropWhile isspace (encode_ascii_ignore cs))" .
    have l: "encode_ascii_ignore (replace_whitespace (c # cs)) =
        32 # encode_ascii_ignore (replace_whitespace ?d)"
      using True by (simp add: encode_ascii_ignore_def)
    have r: "encode_ascii_ignore (c # cs) = c # encode_ascii_ignore cs"
      using c by (simp add: encode_ascii_ignore_def)
    show ?thesis
      unfolding l r using True step by (simp add: isspace_space)
  next
    case False
    have IH: "replace_whitespace (encode_ascii_ignore (replace_whitespace cs)) =
        replace_whitespace (encode_ascii_ignore cs)"
      using False H by (rule 2(2))
    show ?thesis
    proof (cases "c < 128")
      case True
      with False IH show ?thesis by (simp add: encode_ascii_ignore_def)
    next
      case ge: False
      with False IH show ?thesis by (simp add: encode_ascii_ignore_def)
    qed
  qed
qed

lemma filter_dropWhile_not: "filter (\<lambda>c. \<not> P c) (dropWhile P xs) = filter (\<lambda>c. \<not> P c) xs"
  by (induction xs) auto

lemma replace_whitespace_nonspace:
  "filter (\<lambda>c. c \<noteq> 32) (replace_whitespace s) = filter (\<lambda>c. \<not> isspace c) s"
proof (induction s rule: replace_whitespace.induct)
  case 1
  show ?case by simp
next
  case (2 c cs)
  show ?case
  proof (cases "isspace c")
    case True
    with 2(1) show ?thesis by (simp add: filter_dropWhile_not)
  next
    case False
    then have "c \<noteq> 32" using isspace_space by auto
    with False 2(2) show ?thesis by simp
  qed
qed

lemma same_nonspace_characters:
  "filter (\<lambda>c. c \<noteq> 32) (encode_ascii_ignore (replace_whitespace s)) =
   filter (\<lambda>c. c \<noteq> 32) (replace_whitespace (encode_ascii_ignore s))"
proof -
  have "filter (\<lambda>c. c \<noteq> 32) (encode_ascii_ignore (replace_whitespace s)) =
      encode_ascii_ignore (filter (\<lambda>c. c \<noteq> 32) (replace_whitespace s))"
    by (simp add: encode_ascii_ignore_def conj_commute)
  also have "\<dots> = encode_ascii_ignore (filter (\<lambda>c. \<not> isspace c) s)"
    by (simp only: replace_whitespace_nonspace)
  also have "\<dots> = filter (\<lambda>c. \<not> isspace c) (encode_ascii_ignore s)"
    by (simp add: encode_ascii_ignore_def conj_commute)
  also have "\<dots> = filter (\<lambda>c. c \<noteq> 32) (replace_whitespace (encode_ascii_ignore s))"
    by (simp only: replace_whitespace_nonspace)
  finally show ?thesis .
qed

lemma length_replace_whitespace: "length (replace_whitespace s) \<le> length s"
proof (induction s rule: replace_whitespace.induct)
  case 1
  show ?case by simp
next
  case (2 c cs)
  show ?case
  proof (cases "isspace c")
    case True
    have "length (dropWhile isspace cs) \<le> length cs" by (rule length_dropWhile_le)
    with True 2(1) show ?thesis by simp
  next
    case False
    with 2(2) show ?thesis by simp
  qed
qed

lemma replace_whitespace_only_spaces:
  "list_all (\<lambda>c. isspace c \<longrightarrow> c = 32) (replace_whitespace s)"
proof (induction s rule: replace_whitespace.induct)
  case 1
  show ?case by simp
next
  case (2 c cs)
  then show ?case by (cases "isspace c") simp_all
qed

lemma fixed_iff_no_double_space:
  "list_all (\<lambda>c. isspace c \<longrightarrow> c = 32) t \<Longrightarrow>
   (replace_whitespace t = t) = (\<not> double_space t)"
proof (induction t rule: replace_whitespace.induct)
  case 1
  show ?case by simp
next
  case (2 c cs)
  from 2(3) have H: "list_all (\<lambda>c. isspace c \<longrightarrow> c = 32) cs" by simp
  show ?case
  proof (cases "isspace c")
    case True
    with 2(3) have c: "c = 32" by simp
    show ?thesis
    proof (cases cs)
      case Nil
      with True c show ?thesis by simp
    next
      case (Cons d ds)
      show ?thesis
      proof (cases "isspace d")
        case sd: True
        with H Cons have d: "d = 32" by simp
        have "length (replace_whitespace (dropWhile isspace cs)) \<le> length (dropWhile isspace cs)"
          by (rule length_replace_whitespace)
        also have "\<dots> < length cs"
          using Cons sd length_dropWhile_le [of isspace ds] by simp
        finally have "replace_whitespace (dropWhile isspace cs) \<noteq> cs" by auto
        with True c d Cons show ?thesis by simp
      next
        case nd: False
        then have d: "d \<noteq> 32" using isspace_space by auto
        from nd Cons have dw: "dropWhile isspace cs = cs" by simp
        from H have "list_all (\<lambda>c. isspace c \<longrightarrow> c = 32) (dropWhile isspace cs)"
          by (simp add: dw)
        from 2(1) [OF True this] have "(replace_whitespace cs = cs) = (\<not> double_space cs)"
          by (simp add: dw)
        with True c d Cons dw show ?thesis by simp
      qed
    qed
  next
    case False
    then have c: "c \<noteq> 32" using isspace_space by auto
    from 2(2) [OF False H] have IH: "(replace_whitespace cs = cs) = (\<not> double_space cs)" .
    from c have "double_space (c # cs) = double_space cs" by (cases cs) simp_all
    with False IH show ?thesis by simp
  qed
qed

text \<open>
  C2 (as stated).  The two transformations of the cleaner do not commute.  On the
  five characters \<^verbatim>\<open>a\<close>, space, U+00E9, space, \<^verbatim>\<open>b\<close> the order of the notebook
  (whitespace first) leaves two spaces where the character was dropped, the other
  order leaves one.
\<close>

theorem cleaner_order_counterexample:
  "encode_ascii_ignore (replace_whitespace [97, 32, 233, 32, 98]) = [97, 32, 32, 98] \<and>
   replace_whitespace (encode_ascii_ignore [97, 32, 233, 32, 98]) = [97, 32, 98] \<and>
   encode_ascii_ignore (replace_whitespace [97, 32, 233, 32, 98]) \<noteq>
   replace_whitespace (encode_ascii_ignore [97, 32, 233, 32, 98])"
  by (simp add: encode_ascii_ignore_def isspace_def)

text \<open>
  C2 (amended).  The results of the two orders have the same characters other than
  spaces, in the same order.  On a text all of whose whitespace characters are in
  the 7-bit ASCII range, replacing the whitespace once more in the result of the
  notebook's order (whitespace first) gives the result of the other order; so the
  two orders give the same string exactly when the result of the notebook's order
  has no two spaces in a row.
\<close>

theorem cleaner_orders_differ_only_in_spaces:
  "filter (\<lambda>c. c \<noteq> 32) (encode_ascii_ignore (replace_whitespace s)) =
     filter (\<lambda>c. c \<noteq> 32) (replace_whitespace (encode_ascii_ignore s)) \<and>
   (list_all (\<lambda>c. isspace c \<longrightarrow> c < 128) s \<longrightarrow>
      replace_whitespace (encode_ascii_ignore (replace_whitespace s)) =
        replace_whitespace (encode_ascii_ignore s) \<and>
      ((encode_ascii_ignore (replace_whitespace s) = replace_whitespace (encode_ascii_ignore s)) =
        (\<not> double_space (encode_ascii_ignore (replace_whitespace s)))))"
proof -
  have only: "list_all (\<lambda>c. isspace c \<longrightarrow> c = 32) (encode_ascii_ignore (replace_whitespace s))"
    using replace_whitespace_only_spaces [of s]
    by (auto simp: encode_ascii_ignore_def list_all_iff)
  have "(encode_ascii_ignore (replace_whitespace s) = replace_whitespace (encode_ascii_ignore s)) =
        (\<not> double_space (encode_ascii_ignore (replace_whitespace s)))"
    if H: "list_all (\<lambda>c. isspace c \<longrightarrow> c < 128) s"
  proof -
    from collapse_after_reference_order [OF H] fixed_iff_no_double_space [OF only]
    show ?thesis by metis
  qed
  with same_nonspace_characters [of s] collapse_after_reference_order [of s]
  show ?thesis by blast
qed

theorem cleaner_orders_differ_only_in_spaces_witness:
  "list_all (\<lambda>c. isspace c \<longrightarrow> c < 128) [97, 32, 233, 32, 98] \<and>
   encode_ascii_ignore (replace_whitespace [97, 32, 233, 32, 98]) = [97, 32, 32, 98] \<and>
   replace_whitespace (encode_ascii_ignore [97, 32, 233, 32, 98]) = [97, 32, 98] \<and>
   filter (\<lambda>c. c \<noteq> 32) (encode_ascii_ignore (replace_whitespace [97, 32, 233, 32, 98])) =
     filter (\<lambda>c. c \<noteq> 32) (replace_whitespace (encode_ascii_ignore [97, 32, 233, 32, 98])) \<and>
   replace_whitespace (encode_ascii_ignore (replace_whitespace [97, 32, 233, 32, 98])) =
     replace_whitespace (encode_ascii_ignore [97, 32, 233, 32, 98]) \<and>
   double_space (encode_ascii_ignore (replace_whitespace [97, 32, 233, 32, 98])) \<and>
   encode_ascii_ignore (replace_whitespace [97, 233, 9, 98]) =
     replace_whitespace (encode_ascii_ignore [97, 233, 9, 98])"
proof -
  have h: "list_all (\<lambda>c. isspace c \<longrightarrow> c < 128) [97, 32, 233, 32, 98]"
    by (simp add: isspace_def)
  have l: "encode_ascii_ignore (replace_whitespace [97, 32, 233, 32, 98]) = [97, 32, 32, 98]"
    by (simp add: encode_ascii_ignore_def isspace_def)
  have r: "replace_whitespace (encode_ascii_ignore [97, 32, 233, 32, 98]) = [97, 32, 98]"
    by (simp add: encode_ascii_ignore_def isspace_def)
  have c: "encode_ascii_ignore (replace_whitespace [97, 233, 9, 98]) =
      replace_whitespace (encode_ascii_ignore [97, 233, 9, 98])"
    by (simp add: encode_ascii_ignore_def isspace_def)
  from cleaner_orders_differ_only_in_spaces [of "[97, 32, 233, 32, 98]"] h l r c
  show ?thesis by simp
qed

text \<open>
  The condition on the whitespace characters cannot be dropped: U+00A0 is
  whitespace outside the ASCII range, the notebook's order turns it into a space,
  and the other order drops it.
\<close>

lemma non_ascii_whitespace_example:
  "encode_ascii_ignore (replace_whitespace [97, 160, 98]) = [97, 32, 98] \<and>
   replace_whitespace (encode_ascii_ignore [97, 160, 98]) = [97, 98]"
  by (simp add: encode_ascii_ignore_def isspace_def)

section \<open>Properties of the sentence filter\<close>

lemma bind_err_Inr [simp]: "bind_err (Inr x) f = f x"
  by (simp add: bind_err_def)

lemma bind_err_Inl [simp]: "bind_err (Inl e) f = Inl e"
  by (simp add: bind_err_def)

lemma map_err_total: "(\<And>x. f x = Inr (g x)) \<Longrightarrow> map_err f xs = Inr (map g xs)"
  by (induction xs) simp_all

lemma remove_leading_number_returns:
  "remove_leading_number dg sent = Inr (number_stripped dg sent)"
  by (simp add: remove_leading_number_def number_stripped_def subscript_def)

lemma remove_leading_spec_char_returns:
  "remove_leading_spec_char sent = Inr (spec_char_stripped sent)"
  by (simp add: remove_leading_spec_char_def spec_char_stripped_def subscript_def)

lemma sent_cleaning_returns:
  "sent_cleaning dg list_sent =
   Inr (filter keep_sentence
     (map (\<lambda>s. spec_char_stripped (number_stripped dg (remove_special_sequences s))) list_sent))"
  by (simp add: sent_cleaning_def map_err_total [where g = "number_stripped dg"]
      map_err_total [where g = spec_char_stripped]
      remove_leading_number_returns remove_leading_spec_char_returns comp_def)

text \<open>The facts that evaluate a run of the cells on a concrete shard, cell by cell.\<close>

lemmas run_eval = output_text_def filtered_documents_def data_extraction_def extract_row_def
  print_statistics_def column_Length_def corpus_cleaning_def column_Text_def head_def
  encode_ascii_ignore_def one_sentence_def
  sent_cleaning_def remove_leading_number_returns remove_leading_spec_char_returns
  keep_sentence_def spec_char_stripped_def number_stripped_def
  remove_special_sequences_def split_maxsplit1_def isspace_space not_isspace_printable
  letter_not_spec_char dot_question_spec_char str_def isdigit_def ascii_digit_def
  sent_convert_def concatenate_documents_def doc_abc_def doc_def_def doc_empty_text_def
  doc_no_text_def

lemma split_maxsplit1_empty: "split_maxsplit1 [] = []"
  by (simp add: split_maxsplit1_def)

lemma stripped_empty: "spec_char_stripped (number_stripped dg []) = []"
  by (simp add: spec_char_stripped_def number_stripped_def split_maxsplit1_empty)

lemma not_keep_empty: "\<not> keep_sentence []"
  by (simp add: keep_sentence_def)

text \<open>
  C4.  Every sentence that the sentence filter returns has more than 2 and fewer
  than 200 whitespace-separated tokens (and the filter does return).
\<close>

theorem filtered_token_count_in_window:
  "\<exists>cleaned. sent_cleaning dg list_sent = Inr cleaned \<and>
     (\<forall>sent \<in> set cleaned. 2 < length (split sent) \<and> length (split sent) < 200)"
  by (simp add: sent_cleaning_returns keep_sentence_def)

theorem filtered_token_count_in_window_witness:
  "sent_cleaning ascii_digit [str ''a b c'', str ''d e''] = Inr [str ''a b c''] \<and>
   2 < length (split (str ''a b c'')) \<and> length (split (str ''a b c'')) < 200"
proof -
  have run: "sent_cleaning ascii_digit [str ''a b c'', str ''d e''] = Inr [str ''a b c'']"
    by (simp add: run_eval)
  from filtered_token_count_in_window [of ascii_digit "[str ''a b c'', str ''d e'']"] run
  show ?thesis by simp
qed

text \<open>
  C6.  A sentence that the first comprehension turns into the empty string goes
  through the second and the third comprehension without an exception, still
  empty; it has no token, the fourth comprehension does not keep it, and the
  result of the filter is the same as if the sentence had not been in the list.
\<close>

theorem emptied_sentence_is_dropped:
  assumes "remove_special_sequences sent = []"
  shows "remove_leading_number dg (remove_special_sequences sent) = Inr [] \<and>
         remove_leading_spec_char [] = Inr [] \<and>
         length (split []) = 0 \<and> \<not> keep_sentence [] \<and>
         sent_cleaning dg (before @ sent # after) = sent_cleaning dg (before @ after)"
  using assms
  by (simp add: remove_leading_number_returns remove_leading_spec_char_returns
      number_stripped_def spec_char_stripped_def split_maxsplit1_empty
      sent_cleaning_returns not_keep_empty)

theorem emptied_sentence_is_dropped_witness:
  "remove_special_sequences (str ''... ???'') = [] \<and>
   remove_leading_number ascii_digit (remove_special_sequences (str ''... ???'')) = Inr [] \<and>
   sent_cleaning ascii_digit ([str ''a b c''] @ str ''... ???'' # [str ''d e f'']) =
     sent_cleaning ascii_digit ([str ''a b c''] @ [str ''d e f''])"
proof -
  have h: "remove_special_sequences (str ''... ???'') = []"
    by (simp add: run_eval)
  from emptied_sentence_is_dropped [OF h, of ascii_digit "[str ''a b c'']" "[str ''d e f'']"] h
  show ?thesis by simp
qed

text \<open>
  C9.  The sentence filter returns a list for every list of sentences: the
  subscripts \<^verbatim>\<open>[0]\<close> and \<^verbatim>\<open>[1]\<close> of the second and third comprehension are
  evaluated only when the split has more than one element, so neither
  comprehension raises \<^verbatim>\<open>IndexError\<close>, for any sentence.
\<close>

theorem sent_cleaning_total:
  "(\<exists>cleaned. sent_cleaning dg list_sent = Inr cleaned) \<and>
   remove_leading_number dg sent \<noteq> Inl IndexError \<and>
   remove_leading_spec_char sent \<noteq> Inl IndexError"
  by (simp add: sent_cleaning_returns remove_leading_number_returns
      remove_leading_spec_char_returns)

theorem sent_cleaning_total_witness:
  "sent_cleaning ascii_digit [[], str ''7'', str ''? b c d'', str ''12 a b c''] =
     Inr [str ''b c d'', str ''a b c''] \<and>
   remove_leading_number ascii_digit (str ''7'') = Inr (str ''7'') \<and>
   remove_leading_spec_char (str ''?'') = Inr (str ''?'')"
proof -
  have run: "sent_cleaning ascii_digit [[], str ''7'', str ''? b c d'', str ''12 a b c''] =
     Inr [str ''b c d'', str ''a b c'']"
    by (simp add: run_eval)
  have one: "remove_leading_number ascii_digit (str ''7'') = Inr (str ''7'')"
    "remove_leading_spec_char (str ''?'') = Inr (str ''?'')"
    by (simp_all add: run_eval)
  from sent_cleaning_total [of ascii_digit "[[], str ''7'', str ''? b c d'', str ''12 a b c'']"
      "str ''7''"] run one
  show ?thesis by simp
qed

section \<open>Properties of the data extraction\<close>

lemma extract_loop_acc:
  "extract_loop rows data = bind_err (extract_loop [] data) (\<lambda>rs. Inr (rows @ rs))"
proof (induction data arbitrary: rows)
  case Nil
  show ?case by simp
next
  case (Cons doc data)
  show ?case
  proof (cases "extract_row doc")
    case (Inl e)
    then show ?thesis by simp
  next
    case (Inr r)
    show ?thesis
    proof (cases r)
      case None
      with Inr Cons.IH [of rows] show ?thesis by simp
    next
      case (Some row_dict)
      have a: "extract_loop (rows @ [row_dict]) data =
            bind_err (extract_loop [] data) (\<lambda>rs. Inr ((rows @ [row_dict]) @ rs))"
        by (rule Cons.IH)
      have b: "extract_loop [row_dict] data =
            bind_err (extract_loop [] data) (\<lambda>rs. Inr ([row_dict] @ rs))"
        by (rule Cons.IH)
      from Inr Some a b show ?thesis
        by (cases "extract_loop [] data") simp_all
    qed
  qed
qed

lemma extract_loop_append:
  "extract_loop rows (before @ after) =
   bind_err (extract_loop rows before) (\<lambda>rs. extract_loop rs after)"
proof (induction before arbitrary: rows)
  case Nil
  show ?case by simp
next
  case (Cons d before)
  then show ?case by (cases "extract_row d") simp_all
qed

lemma extract_loop_Cons_row:
  "extract_row doc = Inr (Some r) \<Longrightarrow>
   extract_loop rows (doc # after) = bind_err (extract_loop [] after) (\<lambda>rs. Inr (rows @ r # rs))"
  using extract_loop_acc [of "rows @ [r]" after] by simp

lemma extract_loop_skip:
  "extract_row doc = Inr None \<Longrightarrow> extract_loop rows (before @ doc # after) = extract_loop rows (before @ after)"
proof (induction before arbitrary: rows)
  case Nil
  then show ?case by simp
next
  case (Cons d before)
  then show ?case by (cases "extract_row d") simp_all
qed

lemma extract_row_no_text:
  "map_of kvs (str ''text'') = None \<Longrightarrow> extract_row (JObj kvs) = Inr None"
  by (simp add: extract_row_def)

lemma extract_row_empty_text:
  "map_of kvs (str ''text'') = Some (JArr []) \<Longrightarrow>
   extract_row (JObj kvs) = Inr (Some \<lparr>Text = [], Length = 0\<rparr>)"
  by (simp add: extract_row_def)

lemma map_err_nth:
  "map_err f xs = Inr ys \<Longrightarrow> length ys = length xs \<and> (\<forall>i < length xs. f (xs ! i) = Inr (ys ! i))"
proof (induction xs arbitrary: ys)
  case Nil
  then show ?case by simp
next
  case (Cons x xs)
  from Cons.prems obtain y where y: "f x = Inr y"
    by (cases "f x") simp_all
  with Cons.prems obtain ys' where ys': "map_err f xs = Inr ys'" and ys: "ys = y # ys'"
    by (cases "map_err f xs") auto
  from Cons.IH [OF ys'] y ys show ?case
    by (auto simp: nth_Cons split: nat.splits)
qed

lemma map_err_set:
  "map_err f xs = Inr ys \<Longrightarrow> y \<in> set ys \<Longrightarrow> \<exists>x. f x = Inr y"
proof -
  assume a: "map_err f xs = Inr ys" and b: "y \<in> set ys"
  from b obtain i where i: "i < length ys" "ys ! i = y" by (auto simp: in_set_conv_nth)
  with map_err_nth [OF a] show ?thesis by auto
qed

lemma data_extraction_not_array:
  assumes "(\<exists>e. file = Inl e) \<or> (\<exists>v. file = Inr v \<and> \<not> is_array v)"
  shows "(\<exists>e. file = Inl e \<and> data_extraction file = Inl e) \<or>
         data_extraction file = Inl TypeError \<or>
         data_extraction file = Inl AttributeError \<or>
         ((file = Inr (JObj []) \<or> file = Inr (JStr [])) \<and> data_extraction file = Inr [])"
proof (cases "file")
  case (Inl e)
  then show ?thesis by (simp add: data_extraction_def)
next
  case (Inr v)
  with assms have na: "\<not> is_array v" by simp
  show ?thesis
  proof (cases v)
    case (JStr s)
    with Inr show ?thesis
      by (cases s) (simp_all add: data_extraction_def extract_row_def)
  next
    case (JObj kvs)
    with Inr show ?thesis
      by (cases kvs) (simp_all add: data_extraction_def extract_row_def)
  next
    case (JArr vs)
    with na show ?thesis by (simp add: is_array_def)
  qed (use Inr in \<open>simp_all add: data_extraction_def\<close>)
qed

lemma print_statistics_no_rows: "print_statistics [] = Inl AttributeError"
  by (simp add: print_statistics_def column_Length_def)

lemma print_statistics_rows:
  "df \<noteq> [] \<Longrightarrow> print_statistics df = Inr (foldr max (map Length df) 0, length df)"
  by (simp add: print_statistics_def column_Length_def)

lemma output_text_no_rows:
  "data_extraction file = Inr [] \<Longrightarrow> output_text seg dg file = Inl AttributeError"
  by (simp add: output_text_def filtered_documents_def print_statistics_no_rows)

lemma output_text_extraction_error:
  "data_extraction file = Inl e \<Longrightarrow> output_text seg dg file = Inl e"
  by (simp add: output_text_def filtered_documents_def)

lemma map_err_returns:
  "(\<And>x. x \<in> set xs \<Longrightarrow> \<exists>y. f x = Inr y) \<Longrightarrow> \<exists>ys. map_err f xs = Inr ys"
proof (induction xs)
  case Nil
  show ?case by simp
next
  case (Cons x xs)
  from Cons.prems [of x] obtain y where y: "f x = Inr y" by auto
  from Cons.IH Cons.prems obtain ys where "map_err f xs = Inr ys" by auto
  with y show ?case by simp
qed

lemma corpus_cleaning_rows:
  "df \<noteq> [] \<Longrightarrow>
   corpus_cleaning (head df) =
     Inr (map (\<lambda>r. encode_ascii_ignore (replace_whitespace (Text r))) (head df))"
  by (cases df) (simp_all add: corpus_cleaning_def column_Text_def head_def comp_def)

lemma filtered_documents_rows:
  assumes "data_extraction file = Inr df" "df \<noteq> []"
  shows "filtered_documents seg dg file =
     bind_err (map_err seg (map (\<lambda>r. encode_ascii_ignore (replace_whitespace (Text r))) (head df)))
       (\<lambda>segmented. map_err (sent_cleaning dg) segmented)"
  using assms
  by (simp add: filtered_documents_def print_statistics_rows corpus_cleaning_rows)

lemma filtered_documents_stages:
  assumes "filtered_documents seg dg file = Inr docs"
  shows "\<exists>df segmented. data_extraction file = Inr df \<and> df \<noteq> [] \<and>
           map_err seg (map (\<lambda>r. encode_ascii_ignore (replace_whitespace (Text r))) (head df)) = Inr segmented \<and>
           map_err (sent_cleaning dg) segmented = Inr docs"
proof -
  from assms obtain df where df: "data_extraction file = Inr df"
    by (cases "data_extraction file") (simp_all add: filtered_documents_def)
  have ne: "df \<noteq> []"
  proof
    assume "df = []"
    with df have "output_text seg dg file = Inl AttributeError"
      by (simp add: output_text_no_rows)
    with assms show False by (simp add: output_text_def)
  qed
  let ?texts = "map (\<lambda>r. encode_ascii_ignore (replace_whitespace (Text r))) (head df)"
  from assms filtered_documents_rows [OF df ne, of seg dg]
  have run: "bind_err (map_err seg ?texts) (\<lambda>segmented. map_err (sent_cleaning dg) segmented) = Inr docs"
    by simp
  then obtain segmented where sg: "map_err seg ?texts = Inr segmented"
    by (cases "map_err seg ?texts") simp_all
  with run have "map_err (sent_cleaning dg) segmented = Inr docs" by simp
  with df ne sg show ?thesis by blast
qed

text \<open>
  C5.  A document (a dictionary) without a \<^verbatim>\<open>text\<close> key is skipped by the extraction
  loop without an exception: no row is made for it, and both the rows extracted from
  the shard and the result of the whole run are those of the shard without that
  document.
\<close>

theorem document_without_text_is_skipped:
  assumes "map_of kvs (str ''text'') = None"
  shows "extract_row (JObj kvs) = Inr None \<and>
     data_extraction (Inr (JArr (before @ JObj kvs # after))) = data_extraction (Inr (JArr (before @ after))) \<and>
     output_text seg dg (Inr (JArr (before @ JObj kvs # after))) = output_text seg dg (Inr (JArr (before @ after)))"
  using assms
  by (simp add: extract_row_no_text data_extraction_def extract_loop_skip output_text_def filtered_documents_def)

theorem document_without_text_is_skipped_witness:
  "map_of [(str ''uri'', JStr (str ''u4''))] (str ''text'') = None \<and>
   extract_row (JObj [(str ''uri'', JStr (str ''u4''))]) = Inr None \<and>
   data_extraction (Inr (JArr ([doc_abc] @ JObj [(str ''uri'', JStr (str ''u4''))] # [doc_def]))) =
     data_extraction (Inr (JArr ([doc_abc] @ [doc_def]))) \<and>
   data_extraction (Inr (JArr ([doc_abc] @ JObj [(str ''uri'', JStr (str ''u4''))] # [doc_def]))) =
     Inr [\<lparr>Text = str ''a b c'', Length = 5\<rparr>, \<lparr>Text = str ''d e f'', Length = 5\<rparr>] \<and>
   output_text one_sentence ascii_digit
     (Inr (JArr ([doc_abc] @ JObj [(str ''uri'', JStr (str ''u4''))] # [doc_def]))) =
     output_text one_sentence ascii_digit (Inr (JArr ([doc_abc] @ [doc_def])))"
proof -
  have h: "map_of [(str ''uri'', JStr (str ''u4''))] (str ''text'') = None"
    by (simp add: str_def)
  have rows: "data_extraction (Inr (JArr ([doc_abc] @ [doc_def]))) =
     Inr [\<lparr>Text = str ''a b c'', Length = 5\<rparr>, \<lparr>Text = str ''d e f'', Length = 5\<rparr>]"
    by (simp add: data_extraction_def extract_row_def str_def doc_abc_def doc_def_def)
  from document_without_text_is_skipped [OF h, of "[doc_abc]" "[doc_def]"
      one_sentence ascii_digit] h rows
  show ?thesis by simp
qed

text \<open>
  C3 (as stated).  A file whose top-level value is not an array does not always
  make the loader fail: an empty object (and likewise an empty string) is iterated
  zero times, and the extraction returns an empty list of rows.
\<close>

theorem loader_accepts_empty_object_counterexample:
  "\<not> is_array (JObj []) \<and> data_extraction (Inr (JObj [])) = Inr [] \<and>
   \<not> is_array (JStr []) \<and> data_extraction (Inr (JStr [])) = Inr []"
  by (simp add: is_array_def data_extraction_def)

text \<open>
  C3 (amended).  When \<^verbatim>\<open>json.load\<close> raises on the file, or the top-level value is
  not an array, the run ends with an exception and the output file is left as it
  was: the exception is the one that \<^verbatim>\<open>json.load\<close> raised, or \<^verbatim>\<open>TypeError\<close>, or
  \<^verbatim>\<open>AttributeError\<close>.  It is raised in the extraction cell itself, except for an
  empty object and an empty string at top level: for these the extraction returns
  no rows, and the next cell raises \<^verbatim>\<open>AttributeError\<close> at \<^verbatim>\<open>df.Length\<close>.
\<close>

theorem malformed_input_aborts_run:
  assumes "(\<exists>e. file = Inl e) \<or> (\<exists>v. file = Inr v \<and> \<not> is_array v)"
  shows "(\<exists>e. output_text seg dg file = Inl e \<and>
            (file = Inl e \<or> e = TypeError \<or> e = AttributeError) \<and>
            run_notebook seg dg file output_file = (Some e, output_file)) \<and>
         ((\<exists>e. data_extraction file = Inl e) \<or>
          ((file = Inr (JObj []) \<or> file = Inr (JStr [])) \<and> data_extraction file = Inr [] \<and>
           print_statistics [] = Inl AttributeError))"
proof -
  from data_extraction_not_array [OF assms]
  consider (err) e where "data_extraction file = Inl e"
      "file = Inl e \<or> e = TypeError \<or> e = AttributeError"
    | (empty) "file = Inr (JObj []) \<or> file = Inr (JStr [])" "data_extraction file = Inr []"
    by blast
  then show ?thesis
  proof cases
    case err
    from err(1) have o: "output_text seg dg file = Inl e" by (rule output_text_extraction_error)
    then have "run_notebook seg dg file output_file = (Some e, output_file)"
      by (simp add: run_notebook_def)
    with o err(2) have "\<exists>e. output_text seg dg file = Inl e \<and>
        (file = Inl e \<or> e = TypeError \<or> e = AttributeError) \<and>
        run_notebook seg dg file output_file = (Some e, output_file)"
      by blast
    moreover from err(1) have "\<exists>e. data_extraction file = Inl e" by blast
    ultimately show ?thesis by blast
  next
    case empty
    from empty(2) have o: "output_text seg dg file = Inl AttributeError" by (rule output_text_no_rows)
    then have "run_notebook seg dg file output_file = (Some AttributeError, output_file)"
      by (simp add: run_notebook_def)
    with o have "\<exists>e. output_text seg dg file = Inl e \<and>
        (file = Inl e \<or> e = TypeError \<or> e = AttributeError) \<and>
        run_notebook seg dg file output_file = (Some e, output_file)"
      by blast
    with empty print_statistics_no_rows show ?thesis by blast
  qed
qed

theorem malformed_input_aborts_run_witness:
  "\<not> is_array doc_abc \<and>
   data_extraction (Inr doc_abc) = Inl AttributeError \<and>
   output_text one_sentence ascii_digit (Inr doc_abc) = Inl AttributeError \<and>
   run_notebook one_sentence ascii_digit (Inr doc_abc) (Some (str ''old'')) =
     (Some AttributeError, Some (str ''old'')) \<and>
   output_text one_sentence ascii_digit (Inl UnicodeDecodeError) = Inl UnicodeDecodeError \<and>
   run_notebook one_sentence ascii_digit (Inl UnicodeDecodeError) (Some (str ''old'')) =
     (Some UnicodeDecodeError, Some (str ''old''))"
proof -
  have na: "\<not> is_array doc_abc"
    by (simp add: is_array_def doc_abc_def)
  then have h: "(\<exists>e. Inr doc_abc = (Inl e :: json_file)) \<or>
      (\<exists>v. (Inr doc_abc :: json_file) = Inr v \<and> \<not> is_array v)"
    by simp
  have e: "data_extraction (Inr doc_abc) = Inl AttributeError"
    by (simp add: data_extraction_def extract_row_def doc_abc_def)
  have u: "data_extraction (Inl UnicodeDecodeError) = Inl UnicodeDecodeError"
    by (simp add: data_extraction_def)
  from malformed_input_aborts_run [OF h, of one_sentence ascii_digit "Some (str ''old'')"] na e u
  show ?thesis
    by (simp add: output_text_extraction_error run_notebook_def)
qed

section \<open>Properties of the output file\<close>

lemma split_on_not_Nil: "split_on x ys \<noteq> []"
  by (induction ys) (auto split: list.splits)

lemma split_on_append:
  "split_on x (a @ x # b) = split_on x a @ split_on x b"
proof (induction a)
  case Nil
  show ?case by simp
next
  case (Cons y a)
  then show ?case
    using split_on_not_Nil [of x a] by (auto split: list.splits)
qed

lemma split_on_absent: "x \<notin> set a \<Longrightarrow> split_on x a = [a]"
  by (induction a) auto

lemma split_tokens_no_space:
  "tok \<in> set (split s) \<Longrightarrow> c \<in> set tok \<Longrightarrow> \<not> isspace c"
proof (induction s rule: split.induct)
  case 1
  then show ?case by simp
next
  case (2 d ds)
  show ?case
  proof (cases "isspace d")
    case True
    with 2 show ?thesis by simp
  next
    case False
    with 2 show ?thesis by (auto dest: set_takeWhileD)
  qed
qed

lemma set_join: "c \<in> set (join sep xs) \<Longrightarrow> c \<in> set sep \<or> (\<exists>x \<in> set xs. c \<in> set x)"
  by (induction sep xs rule: join.induct) auto

lemma remove_special_sequences_no_newline: "10 \<notin> set (remove_special_sequences s)"
proof
  assume "10 \<in> set (remove_special_sequences s)"
  then have "10 \<in> set [32::nat] \<or>
      (\<exists>x \<in> set (filter (\<lambda>x. length x \<le> 2 \<or> \<not> list_all (\<lambda>c. c \<in> spec_char) x) (split s)). 10 \<in> set x)"
    unfolding remove_special_sequences_def by (rule set_join)
  then obtain x where "x \<in> set (split s)" "10 \<in> set x" by auto
  then have "\<not> isspace 10" by (rule split_tokens_no_space)
  with isspace_newline show False by simp
qed

lemma split_maxsplit1_subset:
  assumes "u \<in> set (split_maxsplit1 s)"
  shows "set u \<subseteq> set s"
proof -
  let ?r = "dropWhile isspace s"
  let ?tok = "takeWhile (\<lambda>x. \<not> isspace x) ?r"
  let ?rest = "dropWhile isspace (dropWhile (\<lambda>x. \<not> isspace x) ?r)"
  have r: "set ?r \<subseteq> set s"
    by (auto dest: set_dropWhileD)
  have "set ?tok \<subseteq> set ?r"
    by (auto dest: set_takeWhileD)
  with r have tok: "set ?tok \<subseteq> set s" by blast
  have "set ?rest \<subseteq> set (dropWhile (\<lambda>x. \<not> isspace x) ?r)"
    by (auto dest: set_dropWhileD)
  moreover have "set (dropWhile (\<lambda>x. \<not> isspace x) ?r) \<subseteq> set ?r"
    by (auto dest: set_dropWhileD)
  ultimately have rest: "set ?rest \<subseteq> set s" using r by blast
  have "split_maxsplit1 s = [] \<or> split_maxsplit1 s = [?tok] \<or> split_maxsplit1 s = [?tok, ?rest]"
    unfolding split_maxsplit1_def Let_def by presburger
  with assms have "u = ?tok \<or> u = ?rest" by auto
  with tok rest show ?thesis by blast
qed

lemma second_of_split_subset:
  "1 < length (split_maxsplit1 s) \<Longrightarrow> set (split_maxsplit1 s ! 1) \<subseteq> set s"
  by (rule split_maxsplit1_subset) (rule nth_mem)

lemma number_stripped_subset: "set (number_stripped dg s) \<subseteq> set s"
  using second_of_split_subset [of s] by (simp add: number_stripped_def)

lemma spec_char_stripped_subset: "set (spec_char_stripped s) \<subseteq> set s"
  using second_of_split_subset [of s] by (simp add: spec_char_stripped_def)

lemma cleaned_sentence_shape:
  assumes "sent_cleaning dg list_sent = Inr cleaned" "sent \<in> set cleaned"
  shows "sent \<noteq> [] \<and> 10 \<notin> set sent"
proof -
  from assms obtain s where keep: "keep_sentence sent"
      and sent: "sent = spec_char_stripped (number_stripped dg (remove_special_sequences s))"
    by (auto simp: sent_cleaning_returns)
  from keep have "sent \<noteq> []" by (auto simp: keep_sentence_def)
  moreover have "set sent \<subseteq> set (remove_special_sequences s)"
    unfolding sent using spec_char_stripped_subset number_stripped_subset by blast
  then have "10 \<notin> set sent" using remove_special_sequences_no_newline by blast
  ultimately show ?thesis by simp
qed

lemma file_lines_sent_convert:
  "list_all (\<lambda>s. 10 \<notin> set s) d \<Longrightarrow>
   file_lines (sent_convert d) = (if d = [] then [[]] else d)"
proof (induction d rule: induct_list012)
  case 1
  show ?case by (simp add: file_lines_def sent_convert_def)
next
  case (2 s)
  then show ?case by (simp add: file_lines_def sent_convert_def split_on_absent)
next
  case (3 s t d)
  then show ?case
    using split_on_append [of 10 s "join [10] (t # d)"]
    by (simp add: file_lines_def sent_convert_def split_on_absent)
qed

lemma file_lines_concatenate:
  "file_lines (concatenate_documents (t # u # ts)) =
   file_lines t @ [] # file_lines (concatenate_documents (u # ts))"
  using split_on_append [of 10 t "10 # join [10, 10] (u # ts)"]
  by (simp add: file_lines_def concatenate_documents_def)

lemma segments_concatenate:
  "segments (concatenate_documents (t # u # ts)) =
   segments t @ segments (concatenate_documents (u # ts))"
  using split_on_append [of "[]" "file_lines t" "file_lines (concatenate_documents (u # ts))"]
  by (simp add: segments_def file_lines_concatenate)

lemma segments_sent_convert:
  assumes "list_all (\<lambda>s. s \<noteq> [] \<and> 10 \<notin> set s) d"
  shows "segments (sent_convert d) = (if d = [] then [] else [d])"
proof -
  from assms have nl: "list_all (\<lambda>s. 10 \<notin> set s) d" and ne: "[] \<notin> set d"
    by (auto simp: list_all_iff)
  show ?thesis
    using ne by (simp add: segments_def file_lines_sent_convert [OF nl] split_on_absent)
qed

lemma segments_count:
  "list_all (list_all (\<lambda>s. s \<noteq> [] \<and> 10 \<notin> set s)) docs \<Longrightarrow>
   length (segments (concatenate_documents (map sent_convert docs))) =
   length (filter (\<lambda>d. d \<noteq> []) docs)"
proof (induction docs rule: induct_list012)
  case 1
  show ?case by (simp add: segments_def concatenate_documents_def file_lines_def)
next
  case (2 d)
  then show ?case by (simp add: concatenate_documents_def segments_sent_convert)
next
  case (3 d e docs)
  then show ?case by (simp add: segments_concatenate segments_sent_convert)
qed

lemma adjacent_blank_append:
  "L1 \<noteq> [] \<Longrightarrow> last L1 \<noteq> [] \<Longrightarrow> \<not> adjacent_blank L1 \<Longrightarrow>
   L2 \<noteq> [] \<Longrightarrow> hd L2 \<noteq> [] \<Longrightarrow> \<not> adjacent_blank L2 \<Longrightarrow>
   \<not> adjacent_blank (L1 @ [] # L2)"
proof (induction L1 rule: adjacent_blank.induct)
  case 1
  then show ?case by simp
next
  case (2 l)
  then show ?case by (cases L2) auto
next
  case (3 l m ls)
  then show ?case by auto
qed

lemma adjacent_blank_no_blank: "[] \<notin> set L \<Longrightarrow> \<not> adjacent_blank L"
  by (induction L rule: adjacent_blank.induct) auto

lemma layout_when_all_survive:
  "docs \<noteq> [] \<Longrightarrow> list_all (\<lambda>d. d \<noteq> [] \<and> list_all (\<lambda>s. s \<noteq> [] \<and> 10 \<notin> set s) d) docs \<Longrightarrow>
   file_lines (concatenate_documents (map sent_convert docs)) \<noteq> [] \<and>
   hd (file_lines (concatenate_documents (map sent_convert docs))) \<noteq> [] \<and>
   last (file_lines (concatenate_documents (map sent_convert docs))) \<noteq> [] \<and>
   \<not> adjacent_blank (file_lines (concatenate_documents (map sent_convert docs)))"
proof (induction docs rule: induct_list012)
  case 1
  then show ?case by simp
next
  case (2 d)
  then have nl: "list_all (\<lambda>s. 10 \<notin> set s) d" and ne: "[] \<notin> set d" and d: "d \<noteq> []"
    by (auto simp: list_all_iff)
  from d ne have "hd d \<noteq> []" "last d \<noteq> []"
    by (metis hd_in_set, metis last_in_set)
  with d ne show ?case
    by (simp add: concatenate_documents_def file_lines_sent_convert [OF nl] adjacent_blank_no_blank)
next
  case (3 d e docs)
  then have nl: "list_all (\<lambda>s. 10 \<notin> set s) d" and ne: "[] \<notin> set d" and d: "d \<noteq> []"
    by (auto simp: list_all_iff)
  from d ne have hl: "hd d \<noteq> []" "last d \<noteq> []"
    by (metis hd_in_set, metis last_in_set)
  let ?R = "file_lines (concatenate_documents (map sent_convert (e # docs)))"
  from 3 have R: "?R \<noteq> []" "hd ?R \<noteq> []" "last ?R \<noteq> []" "\<not> adjacent_blank ?R"
    by simp_all
  have eq: "file_lines (concatenate_documents (map sent_convert (d # e # docs))) = d @ [] # ?R"
    using d by (simp add: file_lines_concatenate file_lines_sent_convert [OF nl])
  have "\<not> adjacent_blank (d @ [] # ?R)"
    using d hl(2) adjacent_blank_no_blank [OF ne] R(1,2,4) by (rule adjacent_blank_append)
  with eq d hl R show ?case by simp
qed

lemma filtered_documents_shape:
  assumes "filtered_documents seg dg file = Inr docs"
  shows "docs \<noteq> [] \<and> list_all (list_all (\<lambda>s. s \<noteq> [] \<and> 10 \<notin> set s)) docs"
proof -
  from filtered_documents_stages [OF assms] obtain df segmented
    where ne: "df \<noteq> []"
      and sg: "map_err seg (map (\<lambda>r. encode_ascii_ignore (replace_whitespace (Text r))) (head df)) =
        Inr segmented"
      and docs: "map_err (sent_cleaning dg) segmented = Inr docs"
    by blast
  from ne have "head df \<noteq> []" by (cases df) (simp_all add: head_def)
  with map_err_nth [OF sg] map_err_nth [OF docs] have "docs \<noteq> []" by auto
  moreover have "list_all (\<lambda>s. s \<noteq> [] \<and> 10 \<notin> set s) d" if "d \<in> set docs" for d
  proof -
    from map_err_set [OF docs that] obtain x where "sent_cleaning dg x = Inr d" ..
    then show ?thesis using cleaned_sentence_shape by (auto simp: list_all_iff)
  qed
  ultimately show ?thesis by (simp add: list_all_iff)
qed

text \<open>
  C1 (as stated).  A document whose filtered sentence list is empty is joined like
  any other, as the empty string.  A shard of two documents, the first with an
  empty \<^verbatim>\<open>text\<close> list, gives a file that starts with a blank line: one document has
  a sentence, and the file does not have the layout of a file of one document.
\<close>

theorem empty_document_blank_lines_counterexample:
  "filtered_documents one_sentence ascii_digit (Inr (JArr [doc_empty_text, doc_abc])) =
     Inr [[], [str ''a b c'']] \<and>
   output_text one_sentence ascii_digit (Inr (JArr [doc_empty_text, doc_abc])) =
     Inr (10 # 10 # str ''a b c'') \<and>
   length (filter (\<lambda>d. d \<noteq> []) [[], [str ''a b c'']]) = 1 \<and>
   hd (file_lines (10 # 10 # str ''a b c'')) = [] \<and>
   \<not> blank_line_layout (10 # 10 # str ''a b c'') 1"
proof -
  have docs: "filtered_documents one_sentence ascii_digit (Inr (JArr [doc_empty_text, doc_abc])) =
     Inr [[], [str ''a b c'']]"
    by (simp add: run_eval)
  then have out: "output_text one_sentence ascii_digit (Inr (JArr [doc_empty_text, doc_abc])) =
     Inr (10 # 10 # str ''a b c'')"
    by (simp add: output_text_def concatenate_documents_def sent_convert_def)
  have "hd (file_lines (10 # 10 # str ''a b c'')) = []"
    by (simp add: file_lines_def)
  with docs out show ?thesis
    by (simp add: blank_line_layout_def str_def)
qed

text \<open>
  C1 (amended).  For every run that reaches the last cell, the number of segments
  of the output equals the number of processed documents that have at least one
  sentence after filtering; and when every processed document has at least one
  sentence, the file has one segment for each document, no blank line at its start
  or at its end, and never two blank lines in a row.
\<close>

theorem output_segments_match_documents:
  assumes "filtered_documents seg dg file = Inr docs"
  shows "\<exists>out. output_text seg dg file = Inr out \<and>
           length (segments out) = length (filter (\<lambda>d. d \<noteq> []) docs) \<and>
           (list_all (\<lambda>d. d \<noteq> []) docs \<longrightarrow> blank_line_layout out (length docs))"
proof -
  from filtered_documents_shape [OF assms]
  have ne: "docs \<noteq> []" and shape: "list_all (list_all (\<lambda>s. s \<noteq> [] \<and> 10 \<notin> set s)) docs"
    by simp_all
  have out: "output_text seg dg file = Inr (concatenate_documents (map sent_convert docs))"
    using assms by (simp add: output_text_def)
  have count: "length (segments (concatenate_documents (map sent_convert docs))) =
      length (filter (\<lambda>d. d \<noteq> []) docs)"
    using shape by (rule segments_count)
  have "blank_line_layout (concatenate_documents (map sent_convert docs)) (length docs)"
    if all: "list_all (\<lambda>d. d \<noteq> []) docs"
  proof -
    from all shape have "list_all (\<lambda>d. d \<noteq> [] \<and> list_all (\<lambda>s. s \<noteq> [] \<and> 10 \<notin> set s) d) docs"
      by (simp add: list_all_iff)
    from layout_when_all_survive [OF ne this] count all show ?thesis
      by (simp add: blank_line_layout_def list_all_iff)
  qed
  with out count show ?thesis by simp
qed

theorem output_segments_match_documents_witness:
  "filtered_documents one_sentence ascii_digit (Inr (JArr [doc_abc, doc_def])) =
     Inr [[str ''a b c''], [str ''d e f'']] \<and>
   output_text one_sentence ascii_digit (Inr (JArr [doc_abc, doc_def])) =
     Inr (str ''a b c'' @ [10, 10] @ str ''d e f'') \<and>
   length (segments (str ''a b c'' @ [10, 10] @ str ''d e f'')) = 2 \<and>
   blank_line_layout (str ''a b c'' @ [10, 10] @ str ''d e f'') 2"
proof -
  have docs: "filtered_documents one_sentence ascii_digit (Inr (JArr [doc_abc, doc_def])) =
     Inr [[str ''a b c''], [str ''d e f'']]"
    by (simp add: run_eval)
  then have out: "output_text one_sentence ascii_digit (Inr (JArr [doc_abc, doc_def])) =
     Inr (str ''a b c'' @ [10, 10] @ str ''d e f'')"
    by (simp add: output_text_def concatenate_documents_def sent_convert_def)
  from output_segments_match_documents [OF docs] docs out
  show ?thesis by (simp add: numeral_2_eq_2)
qed

section \<open>A document with an empty list of text fragments\<close>

text \<open>
  C10 (as stated).  The document is not skipped by the loader, but the notebook
  goes on with \<^verbatim>\<open>df.head()\<close>: a document that is not among the first five rows is
  neither cleaned nor joined.  In a shard of six documents whose sixth has an empty
  \<^verbatim>\<open>text\<close> list, six rows are extracted, five documents reach the join, and the
  output is the join of five texts.
\<close>

theorem sixth_document_not_joined_counterexample:
  "map_of [(str ''text'', JArr []), (str ''uri'', JStr (str ''u3''))] (str ''text'') = Some (JArr []) \<and>
   one_sentence [] = Inr [] \<and>
   extract_loop [] [doc_abc, doc_abc, doc_abc, doc_abc, doc_abc] =
     Inr [\<lparr>Text = str ''a b c'', Length = 5\<rparr>, \<lparr>Text = str ''a b c'', Length = 5\<rparr>,
          \<lparr>Text = str ''a b c'', Length = 5\<rparr>, \<lparr>Text = str ''a b c'', Length = 5\<rparr>,
          \<lparr>Text = str ''a b c'', Length = 5\<rparr>] \<and>
   data_extraction (Inr (JArr ([doc_abc, doc_abc, doc_abc, doc_abc, doc_abc] @
       JObj [(str ''text'', JArr []), (str ''uri'', JStr (str ''u3''))] # []))) =
     Inr [\<lparr>Text = str ''a b c'', Length = 5\<rparr>, \<lparr>Text = str ''a b c'', Length = 5\<rparr>,
          \<lparr>Text = str ''a b c'', Length = 5\<rparr>, \<lparr>Text = str ''a b c'', Length = 5\<rparr>,
          \<lparr>Text = str ''a b c'', Length = 5\<rparr>, \<lparr>Text = [], Length = 0\<rparr>] \<and>
   filtered_documents one_sentence ascii_digit
     (Inr (JArr ([doc_abc, doc_abc, doc_abc, doc_abc, doc_abc] @
       JObj [(str ''text'', JArr []), (str ''uri'', JStr (str ''u3''))] # []))) =
     Inr [[str ''a b c''], [str ''a b c''], [str ''a b c''], [str ''a b c''], [str ''a b c'']] \<and>
   \<not> length [\<lparr>Text = str ''a b c'', Length = 5\<rparr>, \<lparr>Text = str ''a b c'', Length = 5\<rparr>,
          \<lparr>Text = str ''a b c'', Length = 5\<rparr>, \<lparr>Text = str ''a b c'', Length = 5\<rparr>,
          \<lparr>Text = str ''a b c'', Length = 5\<rparr>]
      < length [[str ''a b c''], [str ''a b c''], [str ''a b c''], [str ''a b c''], [str ''a b c'']] \<and>
   output_text one_sentence ascii_digit
     (Inr (JArr ([doc_abc, doc_abc, doc_abc, doc_abc, doc_abc] @
       JObj [(str ''text'', JArr []), (str ''uri'', JStr (str ''u3''))] # []))) =
     output_text one_sentence ascii_digit
       (Inr (JArr [doc_abc, doc_abc, doc_abc, doc_abc, doc_abc]))"
proof -
  have field: "map_of [(str ''text'', JArr []), (str ''uri'', JStr (str ''u3''))] (str ''text'') =
      Some (JArr [])"
    by simp
  have seg: "one_sentence [] = Inr []"
    by (simp add: one_sentence_def)
  have before: "extract_loop [] [doc_abc, doc_abc, doc_abc, doc_abc, doc_abc] =
     Inr [\<lparr>Text = str ''a b c'', Length = 5\<rparr>, \<lparr>Text = str ''a b c'', Length = 5\<rparr>,
          \<lparr>Text = str ''a b c'', Length = 5\<rparr>, \<lparr>Text = str ''a b c'', Length = 5\<rparr>,
          \<lparr>Text = str ''a b c'', Length = 5\<rparr>]"
    by (simp add: extract_row_def str_def doc_abc_def)
  have rows: "data_extraction (Inr (JArr ([doc_abc, doc_abc, doc_abc, doc_abc, doc_abc] @
       JObj [(str ''text'', JArr []), (str ''uri'', JStr (str ''u3''))] # []))) =
     Inr [\<lparr>Text = str ''a b c'', Length = 5\<rparr>, \<lparr>Text = str ''a b c'', Length = 5\<rparr>,
          \<lparr>Text = str ''a b c'', Length = 5\<rparr>, \<lparr>Text = str ''a b c'', Length = 5\<rparr>,
          \<lparr>Text = str ''a b c'', Length = 5\<rparr>, \<lparr>Text = [], Length = 0\<rparr>]"
    by (simp add: data_extraction_def extract_row_def str_def doc_abc_def)
  have six: "filtered_documents one_sentence ascii_digit
     (Inr (JArr ([doc_abc, doc_abc, doc_abc, doc_abc, doc_abc] @
       JObj [(str ''text'', JArr []), (str ''uri'', JStr (str ''u3''))] # []))) =
     Inr [[str ''a b c''], [str ''a b c''], [str ''a b c''], [str ''a b c''], [str ''a b c'']]"
    by (simp add: run_eval)
  have five: "filtered_documents one_sentence ascii_digit
     (Inr (JArr [doc_abc, doc_abc, doc_abc, doc_abc, doc_abc])) =
     Inr [[str ''a b c''], [str ''a b c''], [str ''a b c''], [str ''a b c''], [str ''a b c'']]"
    by (simp add: run_eval)
  from six five have "output_text one_sentence ascii_digit
     (Inr (JArr ([doc_abc, doc_abc, doc_abc, doc_abc, doc_abc] @
       JObj [(str ''text'', JArr []), (str ''uri'', JStr (str ''u3''))] # []))) =
     output_text one_sentence ascii_digit
       (Inr (JArr [doc_abc, doc_abc, doc_abc, doc_abc, doc_abc]))"
    by (simp add: output_text_def)
  with field seg before rows six show ?thesis by simp
qed

text \<open>
  C10 (amended).  A document whose \<^verbatim>\<open>text\<close> field is the empty list is not skipped
  by the loader: its row has the empty string as text and 0 as length.  When fewer
  than five rows precede it, the documents before and after it are extracted
  without an exception, and the segmenter returns on each text that is processed,
  with no sentence for the empty string, then the run reaches the last cell, the
  document has an empty sentence list, and the empty string is the element of the
  final join at its position.
\<close>

theorem empty_text_document_is_joined:
  assumes field: "map_of kvs (str ''text'') = Some (JArr [])"
      and before: "extract_loop [] before = Inr rows_before"
      and pos: "length rows_before < 5"
      and after: "extract_loop [] after = Inr rows_after"
      and seg: "seg [] = Inr []"
      and segs: "\<forall>r \<in> set (head (rows_before @ \<lparr>Text = [], Length = 0\<rparr> # rows_after)).
                   \<exists>sents. seg (encode_ascii_ignore (replace_whitespace (Text r))) = Inr sents"
  shows "extract_row (JObj kvs) = Inr (Some \<lparr>Text = [], Length = 0\<rparr>) \<and>
         data_extraction (Inr (JArr (before @ JObj kvs # after))) =
           Inr (rows_before @ \<lparr>Text = [], Length = 0\<rparr> # rows_after) \<and>
         encode_ascii_ignore (replace_whitespace []) = [] \<and>
         sent_cleaning dg [] = Inr [] \<and>
         (\<exists>docs. filtered_documents seg dg (Inr (JArr (before @ JObj kvs # after))) = Inr docs \<and>
            length rows_before < length docs \<and> docs ! length rows_before = [] \<and>
            output_text seg dg (Inr (JArr (before @ JObj kvs # after))) =
              Inr (concatenate_documents (map sent_convert docs)) \<and>
            map sent_convert docs ! length rows_before = [])"
proof -
  let ?file = "Inr (JArr (before @ JObj kvs # after))"
  let ?r = "\<lparr>Text = [], Length = 0\<rparr>"
  let ?df = "rows_before @ ?r # rows_after"
  let ?i = "length rows_before"
  let ?clean = "\<lambda>r. encode_ascii_ignore (replace_whitespace (Text r))"
  have row: "extract_row (JObj kvs) = Inr (Some ?r)"
    using field by (rule extract_row_empty_text)
  have df: "data_extraction ?file = Inr ?df"
    using before after extract_loop_Cons_row [OF row, of rows_before after]
    by (simp add: data_extraction_def extract_loop_append)
  have ne: "?df \<noteq> []" by simp
  from segs have "\<exists>segmented. map_err seg (map ?clean (head ?df)) = Inr segmented"
    by (intro map_err_returns) auto
  then obtain segmented where sg: "map_err seg (map ?clean (head ?df)) = Inr segmented" ..
  obtain docs where docs: "map_err (sent_cleaning dg) segmented = Inr docs"
    using map_err_returns [of segmented "sent_cleaning dg"] sent_cleaning_returns [of dg]
    by blast
  have run: "filtered_documents seg dg ?file = Inr docs"
    using sg docs by (simp add: filtered_documents_rows [OF df ne])
  from pos have i_head: "?i < length (head ?df)" and at_i: "head ?df ! ?i = ?r"
    by (simp_all add: head_def nth_append)
  from map_err_nth [OF sg] i_head at_i
  have len_sg: "length segmented = length (head ?df)" and "seg (?clean ?r) = Inr (segmented ! ?i)"
    by auto
  with seg have sg_i: "segmented ! ?i = []"
    by (simp add: encode_ascii_ignore_def)
  have clean_empty: "sent_cleaning dg [] = Inr []"
    by (simp add: sent_cleaning_returns)
  from map_err_nth [OF docs] i_head len_sg
  have len_docs: "?i < length docs" and "sent_cleaning dg (segmented ! ?i) = Inr (docs ! ?i)"
    by auto
  with sg_i clean_empty have docs_i: "docs ! ?i = []" by simp
  have out: "output_text seg dg ?file = Inr (concatenate_documents (map sent_convert docs))"
    using run by (simp add: output_text_def)
  from len_docs docs_i have conv: "map sent_convert docs ! ?i = []"
    by (simp add: sent_convert_def)
  from run len_docs docs_i out conv
  have "\<exists>docs. filtered_documents seg dg ?file = Inr docs \<and>
      ?i < length docs \<and> docs ! ?i = [] \<and>
      output_text seg dg ?file = Inr (concatenate_documents (map sent_convert docs)) \<and>
      map sent_convert docs ! ?i = []"
    by blast
  moreover have "encode_ascii_ignore (replace_whitespace []) = []"
    by (simp add: encode_ascii_ignore_def)
  ultimately show ?thesis using row df clean_empty by blast
qed

theorem empty_text_document_is_joined_witness:
  "map_of [(str ''text'', JArr []), (str ''uri'', JStr (str ''u3''))] (str ''text'') = Some (JArr []) \<and>
   extract_loop [] [doc_abc] = Inr [\<lparr>Text = str ''a b c'', Length = 5\<rparr>] \<and>
   length [\<lparr>Text = str ''a b c'', Length = 5\<rparr>] < 5 \<and>
   extract_loop [] [doc_def] = Inr [\<lparr>Text = str ''d e f'', Length = 5\<rparr>] \<and>
   one_sentence [] = Inr [] \<and>
   extract_row (JObj [(str ''text'', JArr []), (str ''uri'', JStr (str ''u3''))]) =
     Inr (Some \<lparr>Text = [], Length = 0\<rparr>) \<and>
   filtered_documents one_sentence ascii_digit
     (Inr (JArr ([doc_abc] @
        JObj [(str ''text'', JArr []), (str ''uri'', JStr (str ''u3''))] # [doc_def]))) =
     Inr [[str ''a b c''], [], [str ''d e f'']] \<and>
   [[str ''a b c''], [], [str ''d e f'']] ! length [\<lparr>Text = str ''a b c'', Length = 5\<rparr>] = [] \<and>
   output_text one_sentence ascii_digit
     (Inr (JArr ([doc_abc] @
        JObj [(str ''text'', JArr []), (str ''uri'', JStr (str ''u3''))] # [doc_def]))) =
     Inr (str ''a b c'' @ [10, 10] @ [] @ [10, 10] @ str ''d e f'')"
proof -
  have field: "map_of [(str ''text'', JArr []), (str ''uri'', JStr (str ''u3''))] (str ''text'') =
      Some (JArr [])"
    by simp
  have before: "extract_loop [] [doc_abc] = Inr [\<lparr>Text = str ''a b c'', Length = 5\<rparr>]"
    by (simp add: extract_row_def str_def doc_abc_def)
  have pos: "length [\<lparr>Text = str ''a b c'', Length = 5\<rparr>] < 5"
    by simp
  have after: "extract_loop [] [doc_def] = Inr [\<lparr>Text = str ''d e f'', Length = 5\<rparr>]"
    by (simp add: extract_row_def str_def doc_def_def)
  have seg: "one_sentence [] = Inr []"
    by (simp add: one_sentence_def)
  have segs: "\<forall>r \<in> set (head ([\<lparr>Text = str ''a b c'', Length = 5\<rparr>] @ \<lparr>Text = [], Length = 0\<rparr> #
        [\<lparr>Text = str ''d e f'', Length = 5\<rparr>])).
      \<exists>sents. one_sentence (encode_ascii_ignore (replace_whitespace (Text r))) = Inr sents"
    by (simp add: one_sentence_def)
  have docs: "filtered_documents one_sentence ascii_digit
     (Inr (JArr ([doc_abc] @
        JObj [(str ''text'', JArr []), (str ''uri'', JStr (str ''u3''))] # [doc_def]))) =
     Inr [[str ''a b c''], [], [str ''d e f'']]"
    by (simp add: run_eval)
  from empty_text_document_is_joined [OF field before pos after seg segs, of ascii_digit]
    field before after seg docs
  show ?thesis
    by (simp add: output_text_def concatenate_documents_def sent_convert_def)
qed

end
